theory Spec2Isabelle
  imports Main
begin

section \<open>Data model\<close>

text \<open>
  A blob is an opaque binary payload. A Blob object is always truthy in JavaScript, so
  the test \<^verbatim>\<open>if (cachedBlob)\<close> of the hook distinguishes a blob from \<^verbatim>\<open>null\<close> only.
\<close>

datatype blob = Blob "nat list"

text \<open>
  The object stored by \<^verbatim>\<open>store.put({ url, blob })\<close>. The object store \<^verbatim>\<open>images\<close> is
  created by \<^verbatim>\<open>onupgradeneeded\<close> with \<^verbatim>\<open>keyPath: 'url'\<close>: a record's key is its
  \<open>url\<close> field. The store is modelled as the list of its records, so that holding two
  records of one key is expressible.
\<close>

record cached_item =
  url :: string
  blob :: blob

datatype orientation = portrait | landscape

text \<open>\<^verbatim>\<open>ImagePlaceholder\<close> of \<^verbatim>\<open>placeholder-images.ts\<close>; the two numbers are pixel sizes.\<close>

record ImagePlaceholder =
  id' :: string
  description :: string
  imageUrl :: string
  imageHint :: string
  width :: int
  height :: int
  orientation :: orientation

text \<open>The rejection reasons and thrown errors of the three source files.\<close>

datatype error =
    ErrorOpeningDB
  | ErrorStoringImage
  | ErrorGettingImage
  | FailedToFetch string
  | NetworkFailure
  | TransactionFailed

text \<open>
  What \<^verbatim>\<open>fetch(url)\<close> followed by \<^verbatim>\<open>response.blob()\<close> can do: the fetch promise
  rejects, or it resolves with a response carrying \<^verbatim>\<open>ok\<close> and a body whose read
  yields a blob or rejects (\<open>None\<close>).
\<close>

datatype fetch_result = Rejected | Resolved bool "blob option"

text \<open>
  The environment decides every outcome the code cannot: whether \<^verbatim>\<open>indexedDB.open\<close>
  fires \<^verbatim>\<open>onerror\<close>, whether the requests of the object store fail, and what the
  network answers.
\<close>

record env =
  open_fails :: bool
  getAll_fails :: bool
  put_fails :: "string \<Rightarrow> bool"
  get_fails :: "string \<Rightarrow> bool"
  delete_fails :: bool
  fetch :: "string \<Rightarrow> fetch_result"

text \<open>The observable effects of a run, in order.\<close>

datatype effect =
    NetFetch string
  | StorePut string
  | StoreGet string
  | StoreDelete string
  | StoreGetAll
  | ConsoleError string
  | UnhandledRejection error

text \<open>
  The state the code runs in: the module variable \<^verbatim>\<open>let db: IDBDatabase\<close> of
  \<^verbatim>\<open>indexed-db.ts\<close> (set once the database has been opened), the records of the object
  store \<^verbatim>\<open>images\<close>, and the effects so far.
\<close>

record world =
  db :: bool
  images :: "cached_item list"
  trace :: "effect list"

definition emit :: "effect list \<Rightarrow> world \<Rightarrow> world" where
  "emit es w = w\<lparr>trace := trace w @ es\<rparr>"

text \<open>A database that \<^verbatim>\<open>onupgradeneeded\<close> has just created: the store exists and is empty.\<close>

definition fresh_world :: world where
  "fresh_world = \<lparr>db = False, images = [], trace = []\<rparr>"

section \<open>The object store\<close>

text \<open>
  \<^verbatim>\<open>store.put(record)\<close> on a store with a key path: the record replaces the record of
  the same key, or is added.
\<close>

fun os_put :: "cached_item \<Rightarrow> cached_item list \<Rightarrow> cached_item list" where
  "os_put r [] = [r]"
| "os_put r (x # xs) = (if url x = url r then r # xs else x # os_put r xs)"

text \<open>\<^verbatim>\<open>store.get(key)\<close>: the record of that key, or \<^verbatim>\<open>undefined\<close>.\<close>

fun os_get :: "string \<Rightarrow> cached_item list \<Rightarrow> cached_item option" where
  "os_get k [] = None"
| "os_get k (x # xs) = (if url x = k then Some x else os_get k xs)"

text \<open>
  \<^verbatim>\<open>store.delete(key)\<close>: removes what the store holds under that key; nothing to do
  when the key is absent.
\<close>

definition os_delete :: "string \<Rightarrow> cached_item list \<Rightarrow> cached_item list" where
  "os_delete k xs = filter (\<lambda>x. url x \<noteq> k) xs"

definition keys :: "cached_item list \<Rightarrow> string list" where
  "keys xs = map url xs"

text \<open>The number of records a store holds for one key.\<close>

definition entries :: "string \<Rightarrow> cached_item list \<Rightarrow> nat" where
  "entries k xs = length (filter (\<lambda>x. url x = k) xs)"

section \<open>indexed-db.ts\<close>

definition openDB :: "env \<Rightarrow> world \<Rightarrow> (error + unit) \<times> world" where
  "openDB e w =
     (if db w then (Inr (), w)
      else if open_fails e then (Inl ErrorOpeningDB, emit [ConsoleError ''IndexedDB error:''] w)
      else (Inr (), w\<lparr>db := True\<rparr>))"

definition storeImage :: "env \<Rightarrow> string \<Rightarrow> blob \<Rightarrow> world \<Rightarrow> (error + unit) \<times> world" where
  "storeImage e u b w =
     (case openDB e w of
        (Inl err, w1) \<Rightarrow> (Inl err, w1)
      | (Inr _, w1) \<Rightarrow>
          if put_fails e u
          then (Inl ErrorStoringImage, emit [StorePut u, ConsoleError ''Error storing image:''] w1)
          else (Inr (), emit [StorePut u] (w1\<lparr>images := os_put \<lparr>url = u, blob = b\<rparr> (images w1)\<rparr>)))"

definition getImage :: "env \<Rightarrow> string \<Rightarrow> world \<Rightarrow> (error + blob option) \<times> world" where
  "getImage e u w =
     (case openDB e w of
        (Inl err, w1) \<Rightarrow> (Inl err, w1)
      | (Inr _, w1) \<Rightarrow>
          if get_fails e u
          then (Inl ErrorGettingImage, emit [StoreGet u, ConsoleError ''Error getting image:''] w1)
          else (Inr (case os_get u (images w1) of None \<Rightarrow> None | Some r \<Rightarrow> Some (blob r)),
                emit [StoreGet u] w1))"

text \<open>
  The source has no function of its own for deleting: \<^verbatim>\<open>image-cacher.tsx\<close> deletes
  through one \<^verbatim>\<open>readwrite\<close> transaction. A transaction is atomic: when it cannot be made
  or a request of it fails, none of its deletions is kept.
\<close>

definition deleteAll :: "env \<Rightarrow> string list \<Rightarrow> world \<Rightarrow> (error + unit) \<times> world" where
  "deleteAll e us w =
     (if delete_fails e then (Inl TransactionFailed, w)
      else (Inr (), emit (map StoreDelete us) (w\<lparr>images := fold os_delete us (images w)\<rparr>)))"

text \<open>Sequences of store operations, as the callers of the module issue them.\<close>

datatype store_op = Put string blob | Get string | Delete string

definition apply_op :: "env \<Rightarrow> store_op \<Rightarrow> world \<Rightarrow> world" where
  "apply_op e op w =
     (case op of
        Put u b \<Rightarrow> snd (storeImage e u b w)
      | Get u \<Rightarrow> snd (getImage e u w)
      | Delete u \<Rightarrow> snd (deleteAll e [u] w))"

definition apply_ops :: "env \<Rightarrow> store_op list \<Rightarrow> world \<Rightarrow> world" where
  "apply_ops e ops w = fold (apply_op e) ops w"

section \<open>image-cacher.tsx\<close>

text \<open>
  \<^verbatim>\<open>new Set(xs)\<close>: the distinct elements of \<open>xs\<close> in the order of their first
  insertion; \<^verbatim>\<open>s.has(x)\<close> is membership, \<^verbatim>\<open>[...s]\<close> the list itself.
\<close>

fun js_Set :: "string list \<Rightarrow> string list" where
  "js_Set [] = []"
| "js_Set (x # xs) = x # filter (\<lambda>y. y \<noteq> x) (js_Set xs)"

text \<open>
  The body of the inner \<^verbatim>\<open>try\<close> of the loop over \<^verbatim>\<open>imagesToCache\<close>: fetch, test
  \<^verbatim>\<open>response.ok\<close>, read the body, store it.
\<close>

definition cacheImage :: "env \<Rightarrow> ImagePlaceholder \<Rightarrow> world \<Rightarrow> (error + unit) \<times> world" where
  "cacheImage e img w =
     (let w1 = emit [NetFetch (imageUrl img)] w in
      case fetch e (imageUrl img) of
        Rejected \<Rightarrow> (Inl NetworkFailure, w1)
      | Resolved ok body \<Rightarrow>
          if \<not> ok then (Inl (FailedToFetch (imageUrl img)), w1)
          else (case body of
                  None \<Rightarrow> (Inl NetworkFailure, w1)
                | Some b \<Rightarrow> storeImage e (imageUrl img) b w1))"

text \<open>The loop, with the \<^verbatim>\<open>catch\<close> of each round: log and go on to the next image.\<close>

fun cacheLoop :: "env \<Rightarrow> ImagePlaceholder list \<Rightarrow> world \<Rightarrow> world" where
  "cacheLoop e [] w = w"
| "cacheLoop e (img # rest) w =
     (case cacheImage e img w of
        (Inl err, w1) \<Rightarrow>
          cacheLoop e rest (emit [ConsoleError (''Failed to cache image: '' @ imageUrl img)] w1)
      | (Inr _, w1) \<Rightarrow> cacheLoop e rest w1)"

text \<open>
  The handler \<^verbatim>\<open>getAllRequest.onsuccess\<close>, run on the records \<^verbatim>\<open>getAllRequest.result\<close>.
  It is an async function nobody awaits: an error escaping it is an unhandled rejection.
\<close>

definition onsuccess ::
  "env \<Rightarrow> ImagePlaceholder list \<Rightarrow> cached_item list \<Rightarrow> world \<Rightarrow> (error + unit) \<times> world" where
  "onsuccess e imgs cachedItems w =
     (let cachedUrls = js_Set (map url cachedItems);
          requiredUrls = js_Set (map imageUrl imgs);
          imagesToCache = filter (\<lambda>img. imageUrl img \<notin> set cachedUrls) imgs;
          w1 = (if length imagesToCache > 0 then cacheLoop e imagesToCache w else w);
          urlsToRemove = filter (\<lambda>u. u \<notin> set requiredUrls) cachedUrls
      in if length urlsToRemove > 0 then deleteAll e urlsToRemove w1 else (Inr (), w1))"

text \<open>
  \<^verbatim>\<open>syncCache\<close>: the first component is how the promise returned by \<^verbatim>\<open>syncCache()\<close>
  settles, which is what could reach the caller.
\<close>

definition syncCache :: "env \<Rightarrow> ImagePlaceholder list \<Rightarrow> world \<Rightarrow> (error + unit) \<times> world" where
  "syncCache e imgs w =
     (case openDB e w of
        (Inl err, w1) \<Rightarrow> (Inr (), emit [ConsoleError ''Error during cache sync:''] w1)
      | (Inr _, w1) \<Rightarrow>
          if getAll_fails e
          then (Inr (), emit [StoreGetAll,
                  ConsoleError ''Error fetching cached items from IndexedDB:''] w1)
          else (case onsuccess e imgs (images w1) (emit [StoreGetAll] w1) of
                  (Inl err, w2) \<Rightarrow> (Inr (), emit [UnhandledRejection err] w2)
                | (Inr _, w2) \<Rightarrow> (Inr (), w2)))"

text \<open>The desired set and the two differences the pass works on.\<close>

definition desired :: "ImagePlaceholder list \<Rightarrow> string set" where
  "desired imgs = set (map imageUrl imgs)"

definition cached :: "world \<Rightarrow> string set" where
  "cached w = set (keys (images w))"

text \<open>What a successful fetch of \<open>u\<close> delivers, and whether fetch and put of \<open>u\<close> succeed.\<close>

definition payload :: "env \<Rightarrow> string \<Rightarrow> blob option" where
  "payload e u = (case fetch e u of Resolved True (Some b) \<Rightarrow> Some b | _ \<Rightarrow> None)"

definition caches_ok :: "env \<Rightarrow> string \<Rightarrow> bool" where
  "caches_ok e u = (payload e u \<noteq> None \<and> \<not> put_fails e u)"

text \<open>One round of the loop: the \<^verbatim>\<open>try\<close> together with its \<^verbatim>\<open>catch\<close>.\<close>

definition cacheRound :: "env \<Rightarrow> ImagePlaceholder \<Rightarrow> world \<Rightarrow> world" where
  "cacheRound e img w =
     (case cacheImage e img w of
        (Inl err, w1) \<Rightarrow> emit [ConsoleError (''Failed to cache image: '' @ imageUrl img)] w1
      | (Inr _, w1) \<Rightarrow> w1)"

text \<open>\<^verbatim>\<open>imagesToCache\<close> and \<^verbatim>\<open>urlsToRemove\<close> of a pass that starts in world \<open>w\<close>.\<close>

definition toCache :: "ImagePlaceholder list \<Rightarrow> world \<Rightarrow> ImagePlaceholder list" where
  "toCache imgs w = filter (\<lambda>img. imageUrl img \<notin> cached w) imgs"

definition toRemove :: "ImagePlaceholder list \<Rightarrow> world \<Rightarrow> string list" where
  "toRemove imgs w = filter (\<lambda>u. u \<notin> desired imgs) (js_Set (keys (images w)))"

text \<open>The world one pass leaves, its effects recorded from an empty trace.\<close>

definition pass :: "env \<Rightarrow> ImagePlaceholder list \<Rightarrow> world \<Rightarrow> world" where
  "pass e imgs w = snd (syncCache e imgs (w\<lparr>trace := []\<rparr>))"

section \<open>memory-gallery.tsx: useOfflineImage\<close>

text \<open>
  One run of the effect that got past \<^verbatim>\<open>if (!imageUrl) return\<close>: the URL its closure
  holds, its variable \<^verbatim>\<open>isMounted\<close>, and whether the promise of its \<^verbatim>\<open>getImage\<close> has
  settled.
\<close>

record effect_run =
  run_url :: string
  isMounted :: bool
  settled :: bool

text \<open>
  One instance of the hook. \<open>h_imageUrl\<close> is the argument of the latest render (the
  dependency of the effect), \<open>source\<close> the state of \<^verbatim>\<open>useState\<close>. \<open>cleanup\<close> is the
  function the last effect returned, if it returned one: the run whose \<^verbatim>\<open>isMounted\<close> it
  clears and the value of \<^verbatim>\<open>source\<close> of the render that created the effect, which is
  what the closure reads. \<open>objectURLs\<close> are the object URLs created by the instance and
  not revoked, \<open>created\<close> counts the calls of \<^verbatim>\<open>URL.createObjectURL\<close>, \<open>revoked\<close>
  lists the arguments of the calls of \<^verbatim>\<open>URL.revokeObjectURL\<close>.
\<close>

record hook =
  mounted :: bool
  h_imageUrl :: "string option"
  source :: "string option"
  cleanup :: "(nat \<times> string option) option"
  runs :: "effect_run list"
  objectURLs :: "string list"
  created :: nat
  revoked :: "string list"

text \<open>\<^verbatim>\<open>s.startsWith(p)\<close>.\<close>

definition startsWith :: "string \<Rightarrow> string \<Rightarrow> bool" where
  "startsWith s p = (take (length p) s = p)"

text \<open>
  The browser names each object URL \<^verbatim>\<open>blob:\<close> followed by an identifier of its own
  choice, never used before; the identifier of the \<open>n\<close>-th is written in unary here.
\<close>

definition objectURL_name :: "nat \<Rightarrow> string" where
  "objectURL_name n = ''blob:'' @ replicate n (CHR ''i'')"

definition createObjectURL :: "blob \<Rightarrow> hook \<Rightarrow> string \<times> hook" where
  "createObjectURL b h =
     (let s = objectURL_name (created h)
      in (s, h\<lparr>objectURLs := objectURLs h @ [s], created := Suc (created h)\<rparr>))"

definition revokeObjectURL :: "string \<Rightarrow> hook \<Rightarrow> hook" where
  "revokeObjectURL s h =
     h\<lparr>objectURLs := filter (\<lambda>x. x \<noteq> s) (objectURLs h), revoked := revoked h @ [s]\<rparr>"

text \<open>
  The function given to \<^verbatim>\<open>useEffect\<close>, run with the values of the latest render.
  \<^verbatim>\<open>!imageUrl\<close> holds of \<^verbatim>\<open>null\<close> and of the empty string. Otherwise \<^verbatim>\<open>fetchImage()\<close>
  starts (its continuation is \<open>fetchImage_settles\<close> below) and the cleanup is returned.
\<close>

definition effect_body :: "hook \<Rightarrow> hook" where
  "effect_body h =
     (case h_imageUrl h of
        None \<Rightarrow> h\<lparr>cleanup := None\<rparr>
      | Some u \<Rightarrow>
          if u = [] then h\<lparr>cleanup := None\<rparr>
          else h\<lparr>runs := runs h @ [\<lparr>run_url = u, isMounted = True, settled = False\<rparr>],
                 cleanup := Some (length (runs h), source h)\<rparr>)"

text \<open>
  The cleanup the effect returned: \<^verbatim>\<open>isMounted = false\<close>, then
  \<^verbatim>\<open>if (source && source.startsWith('blob:')) URL.revokeObjectURL(source)\<close> on the
  \<open>source\<close> of its closure.
\<close>

definition effect_cleanup :: "hook \<Rightarrow> hook" where
  "effect_cleanup h =
     (case cleanup h of
        None \<Rightarrow> h
      | Some (i, src) \<Rightarrow>
          (let h1 = h\<lparr>runs := (runs h)[i := (runs h ! i)\<lparr>isMounted := False\<rparr>],
                      cleanup := None\<rparr>
           in case src of
                None \<Rightarrow> h1
              | Some s \<Rightarrow> if s \<noteq> [] \<and> startsWith s ''blob:'' then revokeObjectURL s h1 else h1))"

text \<open>The first render: \<^verbatim>\<open>useState(imageUrl)\<close>, then the effect.\<close>

definition useOfflineImage :: "string option \<Rightarrow> hook" where
  "useOfflineImage u =
     effect_body \<lparr>mounted = True, h_imageUrl = u, source = u, cleanup = None, runs = [],
                  objectURLs = [], created = 0, revoked = []\<rparr>"

text \<open>
  A later render with argument \<open>u\<close>. The effect depends on \<^verbatim>\<open>[imageUrl]\<close> only: when
  the argument is the one of the render before, nothing runs; otherwise the cleanup of the
  effect before runs, then the effect of this render.
\<close>

definition rerender :: "string option \<Rightarrow> hook \<Rightarrow> hook" where
  "rerender u h =
     (if \<not> mounted h \<or> u = h_imageUrl h then h
      else effect_body ((effect_cleanup h)\<lparr>h_imageUrl := u\<rparr>))"

definition unmount :: "hook \<Rightarrow> hook" where
  "unmount h = (if \<not> mounted h then h else (effect_cleanup h)\<lparr>mounted := False\<rparr>)"

text \<open>
  The rest of \<^verbatim>\<open>fetchImage\<close> of run \<open>i\<close> once \<^verbatim>\<open>await getImage(imageUrl)\<close> settles
  with \<open>r\<close>. A rejection leaves the function at the \<^verbatim>\<open>await\<close>: nothing catches it.
\<close>

definition fetchImage_settles :: "nat \<Rightarrow> error + blob option \<Rightarrow> hook \<Rightarrow> hook" where
  "fetchImage_settles i r h =
     (if i \<ge> length (runs h) \<or> settled (runs h ! i) then h
      else
        (let run = runs h ! i;
             h1 = h\<lparr>runs := (runs h)[i := run\<lparr>settled := True\<rparr>]\<rparr>
         in case r of
              Inl err \<Rightarrow> h1
            | Inr cachedBlob \<Rightarrow>
                if isMounted run then
                  (case cachedBlob of
                     Some b \<Rightarrow> (case createObjectURL b h1 of (s, h2) \<Rightarrow> h2\<lparr>source := Some s\<rparr>)
                   | None \<Rightarrow> h1\<lparr>source := Some (run_url run)\<rparr>)
                else h1))"

text \<open>Run \<open>i\<close> of \<^verbatim>\<open>fetchImage\<close> reading the store of world \<open>w\<close>.\<close>

definition fetchImage :: "env \<Rightarrow> world \<Rightarrow> nat \<Rightarrow> hook \<Rightarrow> hook" where
  "fetchImage e w i h = fetchImage_settles i (fst (getImage e (run_url (runs h ! i)) w)) h"

text \<open>What can happen to a mounted instance, and sequences of it.\<close>

datatype hook_event = Rerender "string option" | Settle nat "error + blob option" | Unmount

fun step :: "hook_event \<Rightarrow> hook \<Rightarrow> hook" where
  "step (Rerender u) h = rerender u h"
| "step (Settle i r) h = fetchImage_settles i r h"
| "step Unmount h = unmount h"

definition steps :: "hook_event list \<Rightarrow> hook \<Rightarrow> hook" where
  "steps evs h = fold step evs h"

text \<open>The run the instance is waiting for: the one of the effect in force.\<close>

definition current_run :: "hook \<Rightarrow> nat option" where
  "current_run h = (case cleanup h of None \<Rightarrow> None | Some (i, src) \<Rightarrow> Some i)"

text \<open>
  A run is stale once its \<^verbatim>\<open>isMounted\<close> has been cleared. \<open>cleanup_ok\<close> says that
  the cleanup in force belongs to a run that exists.
\<close>

definition stale :: "nat \<Rightarrow> hook \<Rightarrow> bool" where
  "stale i h = (i < length (runs h) \<and> \<not> isMounted (runs h ! i))"

definition cleanup_ok :: "hook \<Rightarrow> bool" where
  "cleanup_ok h = (case cleanup h of None \<Rightarrow> True | Some (i, s) \<Rightarrow> i < length (runs h))"

section \<open>Inputs for concrete runs\<close>

text \<open>A manifest entry for a URL, and an environment in which nothing fails.\<close>

definition photo :: "string \<Rightarrow> ImagePlaceholder" where
  "photo u = \<lparr>id' = u, description = [], imageUrl = u, imageHint = [], width = 4, height = 3,
              orientation = landscape\<rparr>"

definition online :: env where
  "online = \<lparr>open_fails = False, getAll_fails = False, put_fails = (\<lambda>u. False),
             get_fails = (\<lambda>u. False), delete_fails = False,
             fetch = (\<lambda>u. Resolved True (Some (Blob [length u])))\<rparr>"

text \<open>The same environment, except that the fetch of \<open>k\<close> is rejected.\<close>

definition unreachable :: "string \<Rightarrow> env" where
  "unreachable k = online\<lparr>fetch := (\<lambda>u. if u = k then Rejected else Resolved True (Some (Blob [length u])))\<rparr>"

text \<open>A store left by an earlier session: \<open>b\<close> is still wanted below, \<open>x\<close> is not.\<close>

definition stale_world :: world where
  "stale_world = fresh_world\<lparr>images := [\<lparr>url = ''b'', blob = Blob [7]\<rparr>, \<lparr>url = ''x'', blob = Blob [8]\<rparr>]\<rparr>"

section \<open>Facts about the object store\<close>

lemma keys_simps [simp]: "keys [] = []" "keys (x # xs) = url x # keys xs"
  by (simp_all add: keys_def)

lemma keys_os_put: "set (keys (os_put r xs)) = insert (url r) (set (keys xs))"
  by (induction xs) auto

lemma distinct_os_put: "distinct (keys xs) \<Longrightarrow> distinct (keys (os_put r xs))"
  by (induction xs) (auto simp: keys_os_put)

lemma keys_os_delete: "set (keys (os_delete k xs)) = set (keys xs) - {k}"
  by (induction xs) (auto simp: os_delete_def)

lemma distinct_os_delete: "distinct (keys xs) \<Longrightarrow> distinct (keys (os_delete k xs))"
  by (simp add: keys_def os_delete_def distinct_map_filter)

lemma os_get_os_put: "os_get k (os_put r xs) = (if k = url r then Some r else os_get k xs)"
  by (induction xs) auto

lemma os_get_None: "os_get k xs = None \<longleftrightarrow> k \<notin> set (keys xs)"
  by (induction xs) auto

lemma os_get_os_delete: "os_get k (os_delete k' xs) = (if k = k' then None else os_get k xs)"
  by (induction xs) (auto simp: os_delete_def)

lemma entries_absent: "k \<notin> set (keys xs) \<Longrightarrow> entries k xs = 0"
  by (induction xs) (auto simp: entries_def)

lemma entries_distinct:
  "distinct (keys xs) \<Longrightarrow> entries k xs = (if k \<in> set (keys xs) then 1 else 0)"
proof (induction xs)
  case Nil
  then show ?case by (simp add: entries_def)
next
  case (Cons x xs)
  have step: "entries k (x # xs) = (if url x = k then 1 else 0) + entries k xs"
    by (simp add: entries_def)
  from Cons show ?case
    by (auto simp: step entries_absent)
qed

lemma images_storeImage:
  "images (snd (storeImage e u b w)) = images w \<or>
   images (snd (storeImage e u b w)) = os_put \<lparr>url = u, blob = b\<rparr> (images w)"
  by (simp add: storeImage_def openDB_def emit_def)

lemma images_getImage: "images (snd (getImage e u w)) = images w"
  by (simp add: getImage_def openDB_def emit_def)

lemma distinct_apply_op:
  "distinct (keys (images w)) \<Longrightarrow> distinct (keys (images (apply_op e op w)))"
proof (cases op)
  case (Put u b)
  assume d: "distinct (keys (images w))"
  from images_storeImage[of e u b w] d Put show ?thesis
    by (auto simp: apply_op_def distinct_os_put)
next
  case (Get u)
  assume "distinct (keys (images w))"
  with Get show ?thesis by (simp add: apply_op_def images_getImage)
next
  case (Delete u)
  assume "distinct (keys (images w))"
  with Delete show ?thesis
    by (simp add: apply_op_def deleteAll_def emit_def distinct_os_delete)
qed

lemma distinct_apply_ops:
  "distinct (keys (images w)) \<Longrightarrow> distinct (keys (images (apply_ops e ops w)))"
  unfolding apply_ops_def
  by (induction ops arbitrary: w) (simp_all add: distinct_apply_op)

lemma openDB_opened: "db w \<or> \<not> open_fails e \<Longrightarrow> openDB e w = (Inr (), w\<lparr>db := True\<rparr>)"
  by (auto simp: openDB_def)

lemma storeImage_ok:
  "db w \<or> \<not> open_fails e \<Longrightarrow> \<not> put_fails e u \<Longrightarrow>
   storeImage e u b w =
     (Inr (), emit [StorePut u] (w\<lparr>db := True, images := os_put \<lparr>url = u, blob = b\<rparr> (images w)\<rparr>))"
  by (simp add: storeImage_def openDB_opened)

lemma getImage_ok:
  "db w \<or> \<not> open_fails e \<Longrightarrow> \<not> get_fails e u \<Longrightarrow>
   fst (getImage e u w) = Inr (case os_get u (images w) of None \<Rightarrow> None | Some r \<Rightarrow> Some (blob r))"
  by (simp add: getImage_def openDB_opened)

section \<open>Facts about the synchronizer\<close>

lemma cacheLoop_Cons: "cacheLoop e (img # rest) w = cacheLoop e rest (cacheRound e img w)"
  by (simp add: cacheRound_def split: prod.splits sum.splits)

lemma db_emit [simp]: "db (emit es w) = db w"
  and images_emit [simp]: "images (emit es w) = images w"
  and trace_emit [simp]: "trace (emit es w) = trace w @ es"
  by (simp_all add: emit_def)

lemma db_cacheRound: "db w \<Longrightarrow> db (cacheRound e img w)"
  by (auto simp: cacheRound_def cacheImage_def storeImage_def openDB_def Let_def
      split: fetch_result.splits option.splits)

lemma images_cacheRound:
  "db w \<Longrightarrow> images (cacheRound e img w) =
     (if caches_ok e (imageUrl img)
      then os_put \<lparr>url = imageUrl img, blob = the (payload e (imageUrl img))\<rparr> (images w)
      else images w)"
  by (auto simp: cacheRound_def cacheImage_def storeImage_def openDB_def Let_def caches_ok_def payload_def
      split: fetch_result.splits option.splits)

lemma trace_cacheRound:
  "db w \<Longrightarrow> \<exists>es. trace (cacheRound e img w) = trace w @ NetFetch (imageUrl img) # es \<and>
     (StorePut (imageUrl img) \<in> set es \<longleftrightarrow> payload e (imageUrl img) \<noteq> None) \<and>
     (\<forall>x \<in> set es. x = StorePut (imageUrl img) \<or> (\<exists>m. x = ConsoleError m))"
  by (auto simp: cacheRound_def cacheImage_def storeImage_def openDB_def Let_def caches_ok_def payload_def
      split: fetch_result.splits option.splits)


lemma mem_trace_cacheRound:
  assumes "db w"
  shows "NetFetch k \<in> set (trace (cacheRound e img w)) \<longleftrightarrow>
           NetFetch k \<in> set (trace w) \<or> k = imageUrl img"
    and "StorePut k \<in> set (trace (cacheRound e img w)) \<longleftrightarrow>
           StorePut k \<in> set (trace w) \<or> (k = imageUrl img \<and> payload e k \<noteq> None)"
    and "StoreDelete k \<in> set (trace (cacheRound e img w)) \<longleftrightarrow> StoreDelete k \<in> set (trace w)"
proof -
  from trace_cacheRound[OF assms, of e img] obtain es where
    t: "trace (cacheRound e img w) = trace w @ NetFetch (imageUrl img) # es"
    and p: "StorePut (imageUrl img) \<in> set es \<longleftrightarrow> payload e (imageUrl img) \<noteq> None"
    and o: "\<forall>x \<in> set es. x = StorePut (imageUrl img) \<or> (\<exists>m. x = ConsoleError m)"
    by blast
  show "NetFetch k \<in> set (trace (cacheRound e img w)) \<longleftrightarrow>
           NetFetch k \<in> set (trace w) \<or> k = imageUrl img"
    using t o by auto
  show "StorePut k \<in> set (trace (cacheRound e img w)) \<longleftrightarrow>
           StorePut k \<in> set (trace w) \<or> (k = imageUrl img \<and> payload e k \<noteq> None)"
    using t p o by auto
  show "StoreDelete k \<in> set (trace (cacheRound e img w)) \<longleftrightarrow> StoreDelete k \<in> set (trace w)"
    using t o by auto
qed

lemma db_cacheLoop: "db w \<Longrightarrow> db (cacheLoop e xs w)"
proof (induction xs arbitrary: w)
  case Nil
  then show ?case by simp
next
  case (Cons x xs)
  then show ?case
    by (simp only: cacheLoop_Cons db_cacheRound)
qed

lemma os_get_cacheLoop:
  "db w \<Longrightarrow> os_get k (images (cacheLoop e xs w)) =
     (if k \<in> imageUrl ` set xs \<and> caches_ok e k
      then Some \<lparr>url = k, blob = the (payload e k)\<rparr>
      else os_get k (images w))"
proof (induction xs arbitrary: w)
  case Nil
  then show ?case by simp
next
  case (Cons x xs)
  have d: "db (cacheRound e x w)"
    using Cons.prems by (rule db_cacheRound)
  have g: "os_get k (images (cacheRound e x w)) =
      (if k = imageUrl x \<and> caches_ok e k then Some \<lparr>url = k, blob = the (payload e k)\<rparr>
       else os_get k (images w))"
    using Cons.prems by (auto simp: images_cacheRound os_get_os_put)
  show ?case
    unfolding cacheLoop_Cons Cons.IH[OF d] g by auto
qed

lemma keys_cacheLoop:
  assumes "db w"
  shows "set (keys (images (cacheLoop e xs w))) =
     set (keys (images w)) \<union> {u \<in> imageUrl ` set xs. caches_ok e u}"
proof -
  have "k \<in> set (keys (images (cacheLoop e xs w))) \<longleftrightarrow>
        k \<in> set (keys (images w)) \<union> {u \<in> imageUrl ` set xs. caches_ok e u}" for k
    using os_get_cacheLoop[OF assms, of k e xs] os_get_None[of k "images (cacheLoop e xs w)"]
      os_get_None[of k "images w"]
    by (auto split: if_splits)
  then show ?thesis by blast
qed

lemma mem_trace_cacheLoop:
  "db w \<Longrightarrow> (NetFetch k \<in> set (trace (cacheLoop e xs w)) \<longleftrightarrow>
           NetFetch k \<in> set (trace w) \<or> k \<in> imageUrl ` set xs) \<and>
     (StorePut k \<in> set (trace (cacheLoop e xs w)) \<longleftrightarrow>
           StorePut k \<in> set (trace w) \<or> (k \<in> imageUrl ` set xs \<and> payload e k \<noteq> None)) \<and>
     (StoreDelete k \<in> set (trace (cacheLoop e xs w)) \<longleftrightarrow> StoreDelete k \<in> set (trace w))"
proof (induction xs arbitrary: w)
  case Nil
  then show ?case by simp
next
  case (Cons x xs)
  have d: "db (cacheRound e x w)"
    using Cons.prems by (rule db_cacheRound)
  show ?case
    unfolding cacheLoop_Cons
    using Cons.IH[OF d] mem_trace_cacheRound[OF Cons.prems, of k e x]
    by auto
qed

lemma set_js_Set [simp]: "set (js_Set xs) = set xs"
  by (induction xs) auto

lemma keys_fold_os_delete: "set (keys (fold os_delete us xs)) = set (keys xs) - set us"
  by (induction us arbitrary: xs) (auto simp: keys_os_delete)

lemma os_get_fold_os_delete:
  "os_get k (fold os_delete us xs) = (if k \<in> set us then None else os_get k xs)"
proof (induction us arbitrary: xs)
  case Nil
  then show ?case by simp
next
  case (Cons u us)
  then show ?case by (simp add: os_get_os_delete)
qed


lemma set_toCache: "imageUrl ` set (toCache imgs w) = desired imgs - cached w"
  by (auto simp: toCache_def desired_def)

lemma set_toRemove: "set (toRemove imgs w) = cached w - desired imgs"
  by (auto simp: toRemove_def cached_def)

lemma syncCache_ok:
  assumes "db w \<or> \<not> open_fails e" and "\<not> getAll_fails e" and "\<not> delete_fails e"
  shows "syncCache e imgs w =
    (Inr (), emit (map StoreDelete (toRemove imgs w))
       ((cacheLoop e (toCache imgs w) (emit [StoreGetAll] (w\<lparr>db := True\<rparr>)))
          \<lparr>images := fold os_delete (toRemove imgs w)
             (images (cacheLoop e (toCache imgs w) (emit [StoreGetAll] (w\<lparr>db := True\<rparr>))))\<rparr>))"
proof -
  let ?w0 = "emit [StoreGetAll] (w\<lparr>db := True\<rparr>)"
  let ?w1 = "cacheLoop e (toCache imgs w) ?w0"
  have loop: "(if length (toCache imgs w) > 0 then cacheLoop e (toCache imgs w) ?w0 else ?w0) = ?w1"
    by simp
  have on: "onsuccess e imgs (images w) ?w0 =
      (if length (toRemove imgs w) > 0 then deleteAll e (toRemove imgs w) ?w1 else (Inr (), ?w1))"
    unfolding onsuccess_def Let_def
    by (simp add: toCache_def toRemove_def cached_def desired_def keys_def)
  have del: "(if length (toRemove imgs w) > 0 then deleteAll e (toRemove imgs w) ?w1 else (Inr (), ?w1))
      = (Inr (), emit (map StoreDelete (toRemove imgs w))
            (?w1\<lparr>images := fold os_delete (toRemove imgs w) (images ?w1)\<rparr>))"
    using assms(3) by (simp add: deleteAll_def emit_def)
  have "onsuccess e imgs (images w) ?w0 =
      (Inr (), emit (map StoreDelete (toRemove imgs w))
            (?w1\<lparr>images := fold os_delete (toRemove imgs w) (images ?w1)\<rparr>))"
    using on del by (rule trans)
  then show ?thesis
    using assms(2) by (simp add: syncCache_def openDB_opened[OF assms(1)])
qed

lemma pass_ok:
  fixes imgs :: "ImagePlaceholder list"
  assumes "db w \<or> \<not> open_fails e" and "\<not> getAll_fails e" and "\<not> delete_fails e"
  defines "w1 \<equiv> cacheLoop e (toCache imgs w) \<lparr>db = True, images = images w, trace = [StoreGetAll]\<rparr>"
  shows "images (pass e imgs w) = fold os_delete (toRemove imgs w) (images w1)"
    and "trace (pass e imgs w) = trace w1 @ map StoreDelete (toRemove imgs w)"
proof -
  have a: "db (w\<lparr>trace := []\<rparr>) \<or> \<not> open_fails e"
    using assms(1) by simp
  have eq: "emit [StoreGetAll] (w\<lparr>trace := [], db := True\<rparr>) = \<lparr>db = True, images = images w, trace = [StoreGetAll]\<rparr>"
    by (simp add: emit_def)
  have c: "toCache imgs (w\<lparr>trace := []\<rparr>) = toCache imgs w" "toRemove imgs (w\<lparr>trace := []\<rparr>) = toRemove imgs w"
    by (simp_all add: toCache_def toRemove_def cached_def)
  show "images (pass e imgs w) = fold os_delete (toRemove imgs w) (images w1)"
    unfolding pass_def syncCache_ok[OF a assms(2,3)] w1_def by (simp add: eq c)
  show "trace (pass e imgs w) = trace w1 @ map StoreDelete (toRemove imgs w)"
    unfolding pass_def syncCache_ok[OF a assms(2,3)] w1_def by (simp add: eq c)
qed

lemma fst_syncCache: "fst (syncCache e imgs w) = Inr ()"
  by (simp add: syncCache_def split: prod.splits sum.splits)

lemma pass_effects:
  fixes imgs :: "ImagePlaceholder list"
  assumes "db w \<or> \<not> open_fails e" and "\<not> getAll_fails e" and "\<not> delete_fails e"
  shows "{u. NetFetch u \<in> set (trace (pass e imgs w))} = desired imgs - cached w"
    and "{u. StorePut u \<in> set (trace (pass e imgs w))} =
           {u \<in> desired imgs - cached w. payload e u \<noteq> None}"
    and "{u. StoreDelete u \<in> set (trace (pass e imgs w))} = cached w - desired imgs"
proof -
  let ?w0 = "\<lparr>db = True, images = images w, trace = [StoreGetAll]\<rparr>"
  have d: "db ?w0" by simp
  note t = pass_ok(2)[OF assms, of imgs]
  note m = mem_trace_cacheLoop[OF d, of _ e "toCache imgs w"]
  show "{u. NetFetch u \<in> set (trace (pass e imgs w))} = desired imgs - cached w"
    unfolding t using m by (auto simp: set_toCache)
  show "{u. StorePut u \<in> set (trace (pass e imgs w))} =
           {u \<in> desired imgs - cached w. payload e u \<noteq> None}"
    unfolding t using m by (auto simp: set_toCache)
  show "{u. StoreDelete u \<in> set (trace (pass e imgs w))} = cached w - desired imgs"
    unfolding t using m by (auto simp: set_toRemove)
qed

lemma pass_os_get:
  fixes imgs :: "ImagePlaceholder list"
  assumes "db w \<or> \<not> open_fails e" and "\<not> getAll_fails e" and "\<not> delete_fails e"
  shows "os_get k (images (pass e imgs w)) =
     (if k \<in> cached w - desired imgs then None
      else if k \<in> desired imgs - cached w \<and> caches_ok e k
        then Some \<lparr>url = k, blob = the (payload e k)\<rparr>
      else os_get k (images w))"
proof -
  let ?w0 = "\<lparr>db = True, images = images w, trace = [StoreGetAll]\<rparr>"
  have d: "db ?w0" by simp
  show ?thesis
    unfolding pass_ok(1)[OF assms, of imgs] os_get_fold_os_delete set_toRemove
      os_get_cacheLoop[OF d] set_toCache
    by simp
qed

lemma pass_cached:
  fixes imgs :: "ImagePlaceholder list"
  assumes "db w \<or> \<not> open_fails e" and "\<not> getAll_fails e" and "\<not> delete_fails e"
  shows "cached (pass e imgs w) =
     (cached w \<inter> desired imgs) \<union> {u \<in> desired imgs - cached w. caches_ok e u}"
proof -
  have "k \<in> cached (pass e imgs w) \<longleftrightarrow>
        k \<in> (cached w \<inter> desired imgs) \<union> {u \<in> desired imgs - cached w. caches_ok e u}" for k
    using pass_os_get[OF assms, of k imgs] os_get_None[of k "images (pass e imgs w)"]
      os_get_None[of k "images w"]
    by (auto simp: cached_def split: if_splits)
  then show ?thesis by blast
qed

lemma payload_caches_ok: "caches_ok e u \<Longrightarrow> \<exists>b. payload e u = Some b"
  by (auto simp: caches_ok_def)

section \<open>Facts about the hook\<close>

lemma revokeObjectURL_fields [simp]:
  "runs (revokeObjectURL s h) = runs h" "source (revokeObjectURL s h) = source h"
  "cleanup (revokeObjectURL s h) = cleanup h" "mounted (revokeObjectURL s h) = mounted h"
  "h_imageUrl (revokeObjectURL s h) = h_imageUrl h" "created (revokeObjectURL s h) = created h"
  by (simp_all add: revokeObjectURL_def)

lemma effect_cleanup_fields:
  "length (runs (effect_cleanup h)) = length (runs h)"
  "source (effect_cleanup h) = source h"
  "mounted (effect_cleanup h) = mounted h"
  "h_imageUrl (effect_cleanup h) = h_imageUrl h"
  "created (effect_cleanup h) = created h"
  by (simp_all add: effect_cleanup_def Let_def split: option.splits prod.splits)

lemma effect_body_fields:
  "source (effect_body h) = source h"
  "mounted (effect_body h) = mounted h"
  "h_imageUrl (effect_body h) = h_imageUrl h"
  "objectURLs (effect_body h) = objectURLs h"
  "revoked (effect_body h) = revoked h"
  "created (effect_body h) = created h"
  by (simp_all add: effect_body_def split: option.splits)

lemma isMounted_cleared:
  "i < length rs \<Longrightarrow>
   isMounted (rs[j := (rs ! j)\<lparr>isMounted := False\<rparr>] ! i) = (i \<noteq> j \<and> isMounted (rs ! i))"
  by (cases "i = j") simp_all

lemma isMounted_settled:
  "i < length rs \<Longrightarrow> isMounted (rs[j := (rs ! j)\<lparr>settled := True\<rparr>] ! i) = isMounted (rs ! i)"
  by (cases "i = j") simp_all

lemma stale_effect_body: "stale i h \<Longrightarrow> stale i (effect_body h)"
  by (auto simp: stale_def effect_body_def nth_append split: option.splits)

lemma stale_effect_cleanup: "stale i h \<Longrightarrow> stale i (effect_cleanup h)"
  by (auto simp: stale_def effect_cleanup_def Let_def isMounted_cleared split: option.splits prod.splits)

lemma stale_after_cleanup:
  "cleanup h = Some (i, s) \<Longrightarrow> i < length (runs h) \<Longrightarrow> stale i (effect_cleanup h)"
  by (auto simp: stale_def effect_cleanup_def Let_def isMounted_cleared split: option.splits)

lemma stale_update [simp]: "stale i (h\<lparr>h_imageUrl := u\<rparr>) = stale i h" "stale i (h\<lparr>mounted := b\<rparr>) = stale i h"
  "stale i (h\<lparr>source := s\<rparr>) = stale i h"
  by (simp_all add: stale_def)

lemma stale_rerender: "stale i h \<Longrightarrow> stale i (rerender u h)"
  by (simp add: rerender_def stale_effect_body stale_effect_cleanup)

lemma stale_unmount: "stale i h \<Longrightarrow> stale i (unmount h)"
  by (simp add: unmount_def stale_effect_cleanup)

lemma stale_settles: "stale i h \<Longrightarrow> stale i (fetchImage_settles j r h)"
  by (auto simp: stale_def fetchImage_settles_def Let_def createObjectURL_def isMounted_settled
      split: sum.splits option.splits)

lemma stale_step: "stale i h \<Longrightarrow> stale i (step ev h)"
  by (cases ev) (simp_all add: stale_rerender stale_unmount stale_settles)

lemma stale_steps: "stale i h \<Longrightarrow> stale i (steps evs h)"
  unfolding steps_def by (induction evs arbitrary: h) (simp_all add: stale_step)

lemma settles_stale:
  assumes "stale i h"
  shows "source (fetchImage_settles i r h) = source h"
    and "objectURLs (fetchImage_settles i r h) = objectURLs h"
    and "revoked (fetchImage_settles i r h) = revoked h"
    and "created (fetchImage_settles i r h) = created h"
    and "cleanup (fetchImage_settles i r h) = cleanup h"
  using assms by (auto simp: stale_def fetchImage_settles_def Let_def split: sum.splits)


lemma cleanup_ok_effect_body: "cleanup_ok (effect_body h)"
  by (simp add: cleanup_ok_def effect_body_def split: option.splits)

lemma cleanup_effect_cleanup: "cleanup (effect_cleanup h) = None"
  by (simp add: effect_cleanup_def Let_def split: option.splits prod.splits)

lemma cleanup_ok_rerender: "cleanup_ok h \<Longrightarrow> cleanup_ok (rerender u h)"
  by (simp add: rerender_def cleanup_ok_effect_body)

lemma cleanup_ok_unmount: "cleanup_ok h \<Longrightarrow> cleanup_ok (unmount h)"
  by (simp add: unmount_def cleanup_ok_def cleanup_effect_cleanup)

lemma cleanup_ok_settles: "cleanup_ok h \<Longrightarrow> cleanup_ok (fetchImage_settles j r h)"
  by (auto simp: cleanup_ok_def fetchImage_settles_def Let_def createObjectURL_def
      split: sum.splits option.splits prod.splits)

lemma cleanup_ok_step: "cleanup_ok h \<Longrightarrow> cleanup_ok (step ev h)"
  by (cases ev) (simp_all add: cleanup_ok_rerender cleanup_ok_unmount cleanup_ok_settles)

lemma cleanup_ok_steps: "cleanup_ok h \<Longrightarrow> cleanup_ok (steps evs h)"
  unfolding steps_def by (induction evs arbitrary: h) (simp_all add: cleanup_ok_step)

lemma cleanup_ok_reachable: "cleanup_ok (steps evs (useOfflineImage u))"
  by (rule cleanup_ok_steps) (simp add: useOfflineImage_def cleanup_ok_effect_body)

lemma stale_after_change:
  assumes "cleanup_ok h" and "current_run h = Some i" and "mounted h" and "u \<noteq> h_imageUrl h"
  shows "stale i (rerender u h)"
proof -
  from assms(2) obtain s where c: "cleanup h = Some (i, s)"
    by (auto simp: current_run_def split: option.splits prod.splits)
  with assms(1) have "i < length (runs h)"
    by (simp add: cleanup_ok_def)
  with c have "stale i (effect_cleanup h)"
    by (rule stale_after_cleanup)
  then have "stale i (effect_body ((effect_cleanup h)\<lparr>h_imageUrl := u\<rparr>))"
    by (simp add: stale_effect_body)
  with assms(3,4) show ?thesis
    by (simp add: rerender_def)
qed

lemma source_not_None_step: "source h \<noteq> None \<Longrightarrow> source (step ev h) \<noteq> None"
proof (cases ev)
  case (Rerender u)
  assume "source h \<noteq> None"
  with Rerender show ?thesis
    by (simp add: rerender_def effect_body_fields effect_cleanup_fields)
next
  case (Settle j r)
  assume "source h \<noteq> None"
  with Settle show ?thesis
    by (auto simp: fetchImage_settles_def Let_def createObjectURL_def
        split: sum.splits option.splits)
next
  case Unmount
  assume "source h \<noteq> None"
  with Unmount show ?thesis
    by (simp add: unmount_def effect_cleanup_fields)
qed

lemma source_not_None_steps: "source h \<noteq> None \<Longrightarrow> source (steps evs h) \<noteq> None"
  unfolding steps_def
proof (induction evs arbitrary: h)
  case Nil
  then show ?case by simp
next
  case (Cons ev evs)
  from Cons.prems have "source (step ev h) \<noteq> None"
    by (rule source_not_None_step)
  then have "source (fold step evs (step ev h)) \<noteq> None"
    by (rule Cons.IH)
  then show ?case by simp
qed

lemma source_rerender: "source (rerender u h) = source h"
  by (simp add: rerender_def effect_body_fields effect_cleanup_fields)

lemma source_useOfflineImage: "source (useOfflineImage u) = u"
  by (simp add: useOfflineImage_def effect_body_fields)

lemma settles_current_absent:
  assumes "i < length (runs h)" and "\<not> settled (runs h ! i)" and "isMounted (runs h ! i)"
  shows "source (fetchImage_settles i (Inr None) h) = Some (run_url (runs h ! i))"
    and "objectURLs (fetchImage_settles i (Inr None) h) = objectURLs h"
  using assms by (simp_all add: fetchImage_settles_def Let_def)

lemma rerender_starts_run:
  assumes "mounted h" and "h_imageUrl h \<noteq> Some u" and "u \<noteq> []"
  shows "length (runs (rerender (Some u) h)) = Suc (length (runs h))"
    and "runs (rerender (Some u) h) ! length (runs h) = \<lparr>run_url = u, isMounted = True, settled = False\<rparr>"
proof -
  let ?c = "(effect_cleanup h)\<lparr>h_imageUrl := Some u\<rparr>"
  have r: "rerender (Some u) h = effect_body ?c"
    using assms(1,2) by (auto simp: rerender_def)
  have l: "length (runs ?c) = length (runs h)"
    by (simp add: effect_cleanup_fields)
  have b: "runs (effect_body ?c) = runs ?c @ [\<lparr>run_url = u, isMounted = True, settled = False\<rparr>]"
    using assms(3) by (simp add: effect_body_def)
  show "length (runs (rerender (Some u) h)) = Suc (length (runs h))"
    unfolding r b using l by simp
  show "runs (rerender (Some u) h) ! length (runs h) = \<lparr>run_url = u, isMounted = True, settled = False\<rparr>"
    unfolding r b using l by (simp add: nth_append)
qed

section \<open>The Blob Store\<close>

text \<open>
  C4. For every key \<open>k\<close> and blobs \<open>b1\<close>, \<open>b2\<close>: after \<open>put(k, b1)\<close> and then
  \<open>put(k, b2)\<close>, both successful, on a store that holds no key twice, \<open>get(k)\<close> returns
  \<open>b2\<close>, and the store holds exactly one entry for \<open>k\<close>: the second put overwrites.
\<close>

theorem put_put_get:
  assumes "db w \<or> \<not> open_fails e" and "\<not> put_fails e k" and "\<not> get_fails e k"
    and "distinct (keys (images w))"
  shows "fst (storeImage e k b1 w) = Inr () \<and>
         fst (storeImage e k b2 (snd (storeImage e k b1 w))) = Inr () \<and>
         fst (getImage e k (snd (storeImage e k b2 (snd (storeImage e k b1 w))))) = Inr (Some b2) \<and>
         entries k (images (snd (storeImage e k b2 (snd (storeImage e k b1 w))))) = 1"
proof -
  let ?r1 = "\<lparr>url = k, blob = b1\<rparr>" and ?r2 = "\<lparr>url = k, blob = b2\<rparr>"
  let ?w1 = "emit [StorePut k] (w\<lparr>db := True, images := os_put ?r1 (images w)\<rparr>)"
  let ?w2 = "emit [StorePut k] (?w1\<lparr>db := True, images := os_put ?r2 (images ?w1)\<rparr>)"
  have s1: "storeImage e k b1 w = (Inr (), ?w1)"
    using assms(1,2) by (rule storeImage_ok)
  have db1: "db ?w1 \<or> \<not> open_fails e"
    by (simp add: emit_def)
  have s2: "storeImage e k b2 ?w1 = (Inr (), ?w2)"
    using db1 assms(2) by (rule storeImage_ok)
  have im2: "images ?w2 = os_put ?r2 (os_put ?r1 (images w))"
    by (simp add: emit_def)
  have db2: "db ?w2 \<or> \<not> open_fails e"
    by (simp add: emit_def)
  have g: "fst (getImage e k ?w2) = Inr (Some b2)"
    using getImage_ok[OF db2 assms(3)] by (simp add: im2 os_get_os_put)
  have d: "distinct (keys (os_put ?r2 (os_put ?r1 (images w))))"
    using assms(4) by (simp add: distinct_os_put)
  have "entries k (images ?w2) = 1"
    using entries_distinct[OF d, of k] by (simp add: im2 keys_os_put)
  with s1 s2 g show ?thesis by simp
qed

theorem put_put_get_witness:
  "(db fresh_world \<or> \<not> open_fails online) \<and> \<not> put_fails online ''a'' \<and>
   \<not> get_fails online ''a'' \<and> distinct (keys (images fresh_world)) \<and>
   fst (getImage online ''a''
     (snd (storeImage online ''a'' (Blob [2])
       (snd (storeImage online ''a'' (Blob [1]) fresh_world))))) = Inr (Some (Blob [2])) \<and>
   entries ''a'' (images
     (snd (storeImage online ''a'' (Blob [2])
       (snd (storeImage online ''a'' (Blob [1]) fresh_world))))) = 1"
proof -
  have h1: "db fresh_world \<or> \<not> open_fails online" by (simp add: online_def)
  have h2: "\<not> put_fails online ''a''" by (simp add: online_def)
  have h3: "\<not> get_fails online ''a''" by (simp add: online_def)
  have h4: "distinct (keys (images fresh_world))" by (simp add: fresh_world_def)
  from put_put_get[OF h1 h2 h3 h4, of "Blob [1]" "Blob [2]"] h1 h2 h3 h4
  show ?thesis by blast
qed

text \<open>
  C5. Whatever sequence of store operations (put, get, delete, each succeeding or
  failing) runs from the empty store, the store never holds two entries of one key; and
  every single operation keeps a store free of such entries free of them.
\<close>

theorem store_keys_unique:
  "distinct (keys (images (apply_ops e ops fresh_world))) \<and>
   entries k (images (apply_ops e ops fresh_world)) \<le> 1 \<and>
   (distinct (keys (images w)) \<longrightarrow> distinct (keys (images (apply_op e op w))))"
proof -
  have d: "distinct (keys (images (apply_ops e ops fresh_world)))"
    by (rule distinct_apply_ops) (simp add: fresh_world_def)
  have "entries k (images (apply_ops e ops fresh_world)) \<le> 1"
    using entries_distinct[OF d, of k] by simp
  with d show ?thesis
    by (simp add: distinct_apply_op)
qed

theorem store_keys_unique_witness:
  "distinct (keys (images (fresh_world\<lparr>images := [\<lparr>url = ''a'', blob = Blob [1]\<rparr>]\<rparr>))) \<and>
   distinct (keys (images (apply_op online (Put ''a'' (Blob [2]))
     (fresh_world\<lparr>images := [\<lparr>url = ''a'', blob = Blob [1]\<rparr>]\<rparr>)))) \<and>
   images (apply_op online (Put ''a'' (Blob [2]))
     (fresh_world\<lparr>images := [\<lparr>url = ''a'', blob = Blob [1]\<rparr>]\<rparr>)) = [\<lparr>url = ''a'', blob = Blob [2]\<rparr>]"
proof -
  have h: "distinct (keys (images (fresh_world\<lparr>images := [\<lparr>url = ''a'', blob = Blob [1]\<rparr>]\<rparr>)))"
    by simp
  have v: "images (apply_op online (Put ''a'' (Blob [2]))
     (fresh_world\<lparr>images := [\<lparr>url = ''a'', blob = Blob [1]\<rparr>]\<rparr>)) = [\<lparr>url = ''a'', blob = Blob [2]\<rparr>]"
    by (simp add: apply_op_def storeImage_def openDB_def online_def fresh_world_def emit_def)
  from store_keys_unique[of online "[]" "''a''"
      "fresh_world\<lparr>images := [\<lparr>url = ''a'', blob = Blob [1]\<rparr>]\<rparr>" "Put ''a'' (Blob [2])"] h v
  show ?thesis by blast
qed

section \<open>The Cache Synchronizer\<close>

text \<open>
  C1. For every manifest (desired set \<open>D\<close>) and every prior store (key set \<open>C\<close>): a
  pass in which the open, the snapshot read, every fetch and put of a key of \<open>D - C\<close> and
  the deletions succeed settles without error and leaves the key set of the store equal
  to \<open>D\<close>. Exactly the keys of \<open>D - C\<close> are fetched and put, and hold the fetched
  payload afterwards; exactly the keys of \<open>C - D\<close> are deleted; the keys in both keep
  their entry.
\<close>

theorem sync_converges:
  fixes imgs :: "ImagePlaceholder list"
  assumes "db w \<or> \<not> open_fails e" and "\<not> getAll_fails e" and "\<not> delete_fails e"
    and "\<forall>u \<in> desired imgs - cached w. caches_ok e u"
  shows "fst (syncCache e imgs w) = Inr () \<and>
         cached (pass e imgs w) = desired imgs \<and>
         {u. NetFetch u \<in> set (trace (pass e imgs w))} = desired imgs - cached w \<and>
         {u. StorePut u \<in> set (trace (pass e imgs w))} = desired imgs - cached w \<and>
         {u. StoreDelete u \<in> set (trace (pass e imgs w))} = cached w - desired imgs \<and>
         (\<forall>u \<in> desired imgs - cached w.
            map_option blob (os_get u (images (pass e imgs w))) = payload e u) \<and>
         (\<forall>u \<in> cached w \<inter> desired imgs. os_get u (images (pass e imgs w)) = os_get u (images w))"
proof -
  note a = assms(1,2,3)
  have ok: "u \<in> desired imgs - cached w \<Longrightarrow> caches_ok e u" for u
    using assms(4) by blast
  have c1: "fst (syncCache e imgs w) = Inr ()"
    by (rule fst_syncCache)
  have c2: "cached (pass e imgs w) = desired imgs"
    unfolding pass_cached[OF a] using ok by auto
  have c3: "{u. NetFetch u \<in> set (trace (pass e imgs w))} = desired imgs - cached w"
    by (rule pass_effects(1)[OF a])
  have c4: "{u. StorePut u \<in> set (trace (pass e imgs w))} = desired imgs - cached w"
    unfolding pass_effects(2)[OF a] using ok by (auto simp: caches_ok_def)
  have c5: "{u. StoreDelete u \<in> set (trace (pass e imgs w))} = cached w - desired imgs"
    by (rule pass_effects(3)[OF a])
  have c6: "map_option blob (os_get u (images (pass e imgs w))) = payload e u"
    if "u \<in> desired imgs - cached w" for u
    using that ok[OF that] payload_caches_ok[of e u] by (auto simp: pass_os_get[OF a])
  have c7: "os_get u (images (pass e imgs w)) = os_get u (images w)"
    if "u \<in> cached w \<inter> desired imgs" for u
    using that by (simp add: pass_os_get[OF a])
  from c1 c2 c3 c4 c5 c6 c7 show ?thesis by blast
qed

theorem sync_converges_witness:
  "(db stale_world \<or> \<not> open_fails online) \<and> \<not> getAll_fails online \<and>
   \<not> delete_fails online \<and>
   desired [photo ''a'', photo ''b''] - cached stale_world = {''a''} \<and>
   caches_ok online ''a'' \<and>
   cached (pass online [photo ''a'', photo ''b''] stale_world) = {''a'', ''b''}"
proof -
  have h1: "db stale_world \<or> \<not> open_fails online" by (simp add: online_def)
  have h2: "\<not> getAll_fails online" by (simp add: online_def)
  have h3: "\<not> delete_fails online" by (simp add: online_def)
  have d: "desired [photo ''a'', photo ''b''] = {''a'', ''b''}"
    by (simp add: desired_def photo_def)
  have c: "cached stale_world = {''b'', ''x''}"
    by (auto simp: cached_def stale_world_def fresh_world_def)
  have t: "desired [photo ''a'', photo ''b''] - cached stale_world = {''a''}"
    unfolding d c by auto
  have k: "caches_ok online ''a''"
    by (simp add: caches_ok_def payload_def online_def)
  have h4: "\<forall>u \<in> desired [photo ''a'', photo ''b''] - cached stale_world. caches_ok online u"
    unfolding t using k by simp
  from sync_converges[OF h1 h2 h3 h4] h1 h2 h3 t k d show ?thesis by simp
qed

text \<open>
  C2. For every manifest and prior store, if the fetch or the put of a key \<open>k0\<close> of
  To-fetch (\<open>D - C\<close>) fails, the pass still settles without error, still fetches every
  key of To-fetch, still puts every key whose fetch delivered a payload, and still
  deletes every key of To-evict (\<open>C - D\<close>): afterwards the store holds the keys of
  \<open>C \<inter> D\<close> and the keys of To-fetch whose fetch and put succeeded, each of the latter
  with its fetched payload, and it does not hold \<open>k0\<close>.
\<close>

theorem sync_partial_failure:
  fixes imgs :: "ImagePlaceholder list"
  assumes "db w \<or> \<not> open_fails e" and "\<not> getAll_fails e" and "\<not> delete_fails e"
    and "k0 \<in> desired imgs - cached w" and "\<not> caches_ok e k0"
  shows "fst (syncCache e imgs w) = Inr () \<and>
         {u. NetFetch u \<in> set (trace (pass e imgs w))} = desired imgs - cached w \<and>
         {u. StorePut u \<in> set (trace (pass e imgs w))} =
            {u \<in> desired imgs - cached w. payload e u \<noteq> None} \<and>
         {u. StoreDelete u \<in> set (trace (pass e imgs w))} = cached w - desired imgs \<and>
         cached (pass e imgs w) =
            (cached w \<inter> desired imgs) \<union> {u \<in> desired imgs - cached w. caches_ok e u} \<and>
         (\<forall>u \<in> desired imgs - cached w. u \<noteq> k0 \<and> caches_ok e u \<longrightarrow>
            map_option blob (os_get u (images (pass e imgs w))) = payload e u) \<and>
         k0 \<notin> cached (pass e imgs w)"
proof -
  note a = assms(1,2,3)
  have c6: "map_option blob (os_get u (images (pass e imgs w))) = payload e u"
    if "u \<in> desired imgs - cached w" and "caches_ok e u" for u
    using that payload_caches_ok[of e u] by (auto simp: pass_os_get[OF a])
  have c7: "k0 \<notin> cached (pass e imgs w)"
    unfolding pass_cached[OF a] using assms(4,5) by auto
  from fst_syncCache[of e imgs w] pass_effects[OF a, of imgs] pass_cached[OF a, of imgs] c6 c7
  show ?thesis by blast
qed

theorem sync_partial_failure_witness:
  "(db stale_world \<or> \<not> open_fails (unreachable ''a'')) \<and> \<not> getAll_fails (unreachable ''a'') \<and>
   \<not> delete_fails (unreachable ''a'') \<and>
   ''a'' \<in> desired [photo ''a'', photo ''b'', photo ''c''] - cached stale_world \<and>
   \<not> caches_ok (unreachable ''a'') ''a'' \<and>
   cached (pass (unreachable ''a'') [photo ''a'', photo ''b'', photo ''c''] stale_world) = {''b'', ''c''}"
proof -
  let ?e = "unreachable ''a''" and ?imgs = "[photo ''a'', photo ''b'', photo ''c'']"
  have h1: "db stale_world \<or> \<not> open_fails ?e" by (simp add: unreachable_def online_def)
  have h2: "\<not> getAll_fails ?e" by (simp add: unreachable_def online_def)
  have h3: "\<not> delete_fails ?e" by (simp add: unreachable_def online_def)
  have d: "desired ?imgs = {''a'', ''b'', ''c''}"
    by (auto simp: desired_def photo_def)
  have c: "cached stale_world = {''b'', ''x''}"
    by (auto simp: cached_def stale_world_def fresh_world_def)
  have h4: "''a'' \<in> desired ?imgs - cached stale_world"
    by (simp add: d c)
  have h5: "\<not> caches_ok ?e ''a''"
    by (simp add: caches_ok_def payload_def unreachable_def)
  have ok: "caches_ok ?e ''c''"
    by (simp add: caches_ok_def payload_def unreachable_def online_def)
  have "(cached stale_world \<inter> desired ?imgs) \<union> {u \<in> desired ?imgs - cached stale_world. caches_ok ?e u} = {''b'', ''c''}"
    unfolding d c using h5 ok by auto
  with sync_partial_failure[OF h1 h2 h3 h4 h5] h1 h2 h3 h4 h5 show ?thesis by simp
qed

text \<open>
  C10. If the snapshot read \<^verbatim>\<open>getAll\<close> fails after the store has been opened, the pass
  is skipped: its only effects are the read itself and the logged error, so nothing is
  fetched, put or deleted, the records of the store are unchanged, and the promise of
  \<^verbatim>\<open>syncCache\<close> settles without error.
\<close>

theorem getAll_failure_skips_pass:
  assumes "db w \<or> \<not> open_fails e" and "getAll_fails e"
  shows "fst (syncCache e imgs w) = Inr () \<and>
         images (snd (syncCache e imgs w)) = images w \<and>
         trace (pass e imgs w) =
           [StoreGetAll, ConsoleError ''Error fetching cached items from IndexedDB:'']"
proof -
  have a: "db (w\<lparr>trace := []\<rparr>) \<or> \<not> open_fails e"
    using assms(1) by simp
  have "images (snd (syncCache e imgs w)) = images w"
    using assms(2) by (simp add: syncCache_def openDB_opened[OF assms(1)])
  moreover have "trace (pass e imgs w) =
      [StoreGetAll, ConsoleError ''Error fetching cached items from IndexedDB:'']"
    using assms(2) by (simp add: pass_def syncCache_def openDB_opened[OF a])
  ultimately show ?thesis
    by (simp add: fst_syncCache)
qed

theorem getAll_failure_skips_pass_witness:
  "(db stale_world \<or> \<not> open_fails (online\<lparr>getAll_fails := True\<rparr>)) \<and>
   getAll_fails (online\<lparr>getAll_fails := True\<rparr>) \<and>
   images (snd (syncCache (online\<lparr>getAll_fails := True\<rparr>) [photo ''a''] stale_world)) = images stale_world"
proof -
  have h1: "db stale_world \<or> \<not> open_fails (online\<lparr>getAll_fails := True\<rparr>)" by (simp add: online_def)
  have h2: "getAll_fails (online\<lparr>getAll_fails := True\<rparr>)" by simp
  from getAll_failure_skips_pass[OF h1 h2] h1 h2 show ?thesis by simp
qed


section \<open>The Resolved-Source Hook\<close>

text \<open>
  C6. For every URL \<open>u\<close> for which the store has no entry and whose lookup does not
  fail: \<^verbatim>\<open>getImage\<close> answers "not found", which is a result and not an error, and the
  hook resolves \<open>u\<close> to \<open>u\<close> itself, both when it is mounted with \<open>u\<close> and when a
  mounted instance, in whatever state, is given \<open>u\<close> as its new input. A URL is a
  non-empty string here: the hook takes the empty string, like \<^verbatim>\<open>null\<close>, for no input.
\<close>

theorem fallback_to_url:
  assumes "u \<notin> cached w" and "db w \<or> \<not> open_fails e" and "\<not> get_fails e u"
  shows "fst (getImage e u w) = Inr None \<and>
         source (fetchImage e w 0 (useOfflineImage (Some u))) = Some u \<and>
         (mounted h \<and> h_imageUrl h \<noteq> Some u \<and> u \<noteq> [] \<longrightarrow>
            source (fetchImage e w (length (runs h)) (rerender (Some u) h)) = Some u \<and>
            objectURLs (fetchImage e w (length (runs h)) (rerender (Some u) h)) =
              objectURLs (rerender (Some u) h))"
proof -
  have "os_get u (images w) = None"
    using assms(1) by (simp add: os_get_None cached_def)
  then have g: "fst (getImage e u w) = Inr None"
    using getImage_ok[OF assms(2,3)] by simp
  have m: "source (fetchImage e w 0 (useOfflineImage (Some u))) = Some u"
  proof (cases "u = []")
    case True
    then show ?thesis
      by (simp add: fetchImage_def fetchImage_settles_def useOfflineImage_def effect_body_def)
  next
    case False
    then show ?thesis
      using g by (simp add: fetchImage_def fetchImage_settles_def useOfflineImage_def effect_body_def)
  qed
  have c: "source (fetchImage e w (length (runs h)) (rerender (Some u) h)) = Some u \<and>
           objectURLs (fetchImage e w (length (runs h)) (rerender (Some u) h)) =
              objectURLs (rerender (Some u) h)"
    if "mounted h" and "h_imageUrl h \<noteq> Some u" and "u \<noteq> []"
  proof -
    note s = rerender_starts_run[OF that]
    have "length (runs h) < length (runs (rerender (Some u) h))"
      using s(1) by simp
    from settles_current_absent[OF this, unfolded s(2)] g s(2) show ?thesis
      by (simp add: fetchImage_def)
  qed
  from g m c show ?thesis by blast
qed

theorem fallback_to_url_witness:
  "''b'' \<notin> cached fresh_world \<and> (db fresh_world \<or> \<not> open_fails online) \<and>
   \<not> get_fails online ''b'' \<and>
   mounted (useOfflineImage (Some ''a'')) \<and>
   h_imageUrl (useOfflineImage (Some ''a'')) \<noteq> Some ''b'' \<and> ''b'' \<noteq> [] \<and>
   source (fetchImage online fresh_world (length (runs (useOfflineImage (Some ''a''))))
     (rerender (Some ''b'') (useOfflineImage (Some ''a'')))) = Some ''b''"
proof -
  have h1: "''b'' \<notin> cached fresh_world" by (simp add: cached_def fresh_world_def)
  have h2: "db fresh_world \<or> \<not> open_fails online" by (simp add: online_def)
  have h3: "\<not> get_fails online ''b''" by (simp add: online_def)
  have h4: "mounted (useOfflineImage (Some ''a'')) \<and>
     h_imageUrl (useOfflineImage (Some ''a'')) \<noteq> Some ''b'' \<and> ''b'' \<noteq> []"
    by (simp add: useOfflineImage_def effect_body_def)
  from fallback_to_url[OF h1 h2 h3, of "useOfflineImage (Some ''a'')"] h1 h2 h3 h4
  show ?thesis by blast
qed

text \<open>
  C9. In every reachable state of a mounted instance whose effect in force belongs to run
  \<open>i\<close> (the resolution for \<open>u1\<close>): once the input changes to another value \<open>u2\<close>,
  whatever happens next and whatever the lookup of run \<open>i\<close> answers, the arrival of
  that answer changes neither the output nor the live object URLs, and revokes nothing.
\<close>

theorem stale_result_discarded:
  assumes "h = steps evs0 (useOfflineImage u0)"
    and "mounted h" and "current_run h = Some i" and "u2 \<noteq> h_imageUrl h"
  shows "source (fetchImage_settles i r (steps evs (rerender u2 h))) = source (steps evs (rerender u2 h)) \<and>
         objectURLs (fetchImage_settles i r (steps evs (rerender u2 h))) = objectURLs (steps evs (rerender u2 h)) \<and>
         revoked (fetchImage_settles i r (steps evs (rerender u2 h))) = revoked (steps evs (rerender u2 h))"
proof -
  have "cleanup_ok h"
    unfolding assms(1) by (rule cleanup_ok_reachable)
  then have "stale i (rerender u2 h)"
    using assms(3,2,4) by (rule stale_after_change)
  then have "stale i (steps evs (rerender u2 h))"
    by (rule stale_steps)
  then show ?thesis
    by (simp add: settles_stale)
qed

theorem stale_result_discarded_witness:
  "useOfflineImage (Some ''a'') = steps [] (useOfflineImage (Some ''a'')) \<and>
   mounted (useOfflineImage (Some ''a'')) \<and>
   current_run (useOfflineImage (Some ''a'')) = Some 0 \<and>
   Some ''b'' \<noteq> h_imageUrl (useOfflineImage (Some ''a'')) \<and>
   source (steps [Settle 1 (Inr None)] (rerender (Some ''b'') (useOfflineImage (Some ''a'')))) = Some ''b'' \<and>
   source (fetchImage_settles 0 (Inr (Some (Blob [1])))
     (steps [Settle 1 (Inr None)] (rerender (Some ''b'') (useOfflineImage (Some ''a''))))) = Some ''b''"
proof -
  have h1: "useOfflineImage (Some ''a'') = steps [] (useOfflineImage (Some ''a''))"
    by (simp add: steps_def)
  have h2: "mounted (useOfflineImage (Some ''a''))"
    by (simp add: useOfflineImage_def effect_body_def)
  have h3: "current_run (useOfflineImage (Some ''a'')) = Some 0"
    by (simp add: useOfflineImage_def effect_body_def current_run_def)
  have h4: "Some ''b'' \<noteq> h_imageUrl (useOfflineImage (Some ''a''))"
    by (simp add: useOfflineImage_def effect_body_def)
  have v: "source (steps [Settle 1 (Inr None)] (rerender (Some ''b'') (useOfflineImage (Some ''a'')))) = Some ''b''"
    by (simp add: steps_def useOfflineImage_def effect_body_def rerender_def effect_cleanup_def
        startsWith_def fetchImage_settles_def)
  from stale_result_discarded[OF h1 h2 h3 h4, of "Inr (Some (Blob [1]))" "[Settle 1 (Inr None)]"]
    h1 h2 h3 h4 v
  show ?thesis by simp
qed

text \<open>
  C8, as the code has it. The output right after the first render is the input itself:
  the URL while its lookup is pending, "none" when the input is "none". A change of the
  input, to a URL or to "none", leaves the output as it was. A hook mounted with a URL
  never outputs "none".
\<close>

theorem output_follows_input:
  "source (useOfflineImage i) = i \<and>
   source (rerender u h) = source h \<and>
   source (steps evs (useOfflineImage (Some k))) \<noteq> None"
  using source_not_None_steps[of "useOfflineImage (Some k)" evs]
  by (simp add: source_useOfflineImage source_rerender)

theorem output_follows_input_witness:
  "source (useOfflineImage None) = None \<and>
   source (rerender (Some ''b'') (useOfflineImage (Some ''a''))) = Some ''a'' \<and>
   source (steps [Rerender None, Unmount] (useOfflineImage (Some ''a''))) \<noteq> None"
proof -
  have "source (useOfflineImage (Some ''a'')) = Some ''a''"
    by (simp add: useOfflineImage_def effect_body_def)
  with output_follows_input[where i = None and u = "Some ''b''"
      and h = "useOfflineImage (Some ''a'')" and evs = "[Rerender None, Unmount]" and k = "''a''"]
  show ?thesis by simp
qed

text \<open>
  C8, as stated, fails: mounted with the URL \<open>a\<close>, the hook has a lookup pending and
  outputs \<open>a\<close>, not "none"; and when the input then becomes "none" the output is still
  \<open>a\<close>.
\<close>

theorem output_pending_counterexample:
  "current_run (useOfflineImage (Some ''a'')) = Some 0 \<and>
   \<not> settled (runs (useOfflineImage (Some ''a'')) ! 0) \<and>
   source (useOfflineImage (Some ''a'')) = Some ''a'' \<and>
   h_imageUrl (rerender None (useOfflineImage (Some ''a''))) = None \<and>
   source (rerender None (useOfflineImage (Some ''a''))) = Some ''a''"
  by (simp add: useOfflineImage_def effect_body_def current_run_def rerender_def
      effect_cleanup_def startsWith_def)


text \<open>
  C3 does not hold of the code. The cleanup reads the \<open>source\<close> of the render that
  created its effect, not the current one. Mounted with \<open>a\<close>, resolved to an object
  URL and torn down, the instance has revoked nothing and one object URL stays live;
  with a change to \<open>b\<close> before the teardown, two are live at once.
\<close>

theorem object_url_leak:
  "objectURLs (steps [Settle 0 (Inr (Some (Blob [1]))), Unmount] (useOfflineImage (Some ''a''))) = [''blob:''] \<and>
   revoked (steps [Settle 0 (Inr (Some (Blob [1]))), Unmount] (useOfflineImage (Some ''a''))) = [] \<and>
   objectURLs (steps [Settle 0 (Inr (Some (Blob [1]))), Rerender (Some ''b''), Settle 1 (Inr (Some (Blob [2])))]
      (useOfflineImage (Some ''a''))) = [''blob:'', ''blob:i'']"
  by (simp add: steps_def useOfflineImage_def effect_body_def rerender_def unmount_def effect_cleanup_def
        startsWith_def fetchImage_settles_def createObjectURL_def revokeObjectURL_def objectURL_name_def
        Let_def)

text \<open>
  C7 does not hold of the code after a change of the input. The hook shows \<open>a\<close>, the
  input changes to \<open>b\<close>, and the lookup of \<open>b\<close> fails, on the read or on opening the
  database: nothing catches the rejection, and the output stays \<open>a\<close>.
\<close>

theorem failed_lookup_after_change:
  "fst (getImage (online\<lparr>get_fails := (\<lambda>u. u = ''b'')\<rparr>) ''a'' fresh_world) = Inr None \<and>
   fst (getImage (online\<lparr>get_fails := (\<lambda>u. u = ''b'')\<rparr>) ''b'' fresh_world) = Inl ErrorGettingImage \<and>
   source (fetchImage (online\<lparr>get_fails := (\<lambda>u. u = ''b'')\<rparr>) fresh_world 1
     (rerender (Some ''b'')
       (fetchImage (online\<lparr>get_fails := (\<lambda>u. u = ''b'')\<rparr>) fresh_world 0
         (useOfflineImage (Some ''a''))))) = Some ''a'' \<and>
   fst (getImage (online\<lparr>open_fails := True\<rparr>) ''b'' fresh_world) = Inl ErrorOpeningDB \<and>
   source (fetchImage (online\<lparr>open_fails := True\<rparr>) fresh_world 1
     (rerender (Some ''b'')
       (fetchImage (online\<lparr>open_fails := True\<rparr>) fresh_world 0
         (useOfflineImage (Some ''a''))))) = Some ''a''"
  by (simp add: fetchImage_def getImage_def openDB_def online_def fresh_world_def emit_def
        useOfflineImage_def effect_body_def rerender_def effect_cleanup_def
        startsWith_def fetchImage_settles_def)


theorem failed_lookup_after_change_witness:
  "source (fetchImage (online\<lparr>get_fails := (\<lambda>u. u = ''b'')\<rparr>) fresh_world 1
     (rerender (Some ''b'')
       (fetchImage (online\<lparr>get_fails := (\<lambda>u. u = ''b'')\<rparr>) fresh_world 0
         (useOfflineImage (Some ''a''))))) \<noteq> Some ''b''"
  using failed_lookup_after_change by simp

end
